theory Spec2Isabelle
  imports Complex_Main
begin

section \<open>JavaScript primitives the formatters rely on\<close>

text \<open>
  The formatters of \<^verbatim>\<open>src/formatters.ts\<close> work on JavaScript numbers and strings.
  A number is a binary64 floating-point value. A pitch number is an integer-valued
  number; it is modelled by the \<^typ>\<open>int\<close> that is its value, and each operation on it
  returns the integer value of the binary64 result. A string is a \<^typ>\<open>string\<close>, each
  \<^typ>\<open>char\<close> standing for one code unit below 256.
\<close>

text \<open>The remainder operator \<^verbatim>\<open>%\<close>: the result takes the sign of the dividend. The
  remainder of two binary64 values is exact.\<close>

definition js_rem :: "int \<Rightarrow> int \<Rightarrow> int" where
  "js_rem a b = sgn a * (\<bar>a\<bar> mod \<bar>b\<bar>)"

text \<open>
  Division rounds the exact quotient to the nearest binary64 value, ties to the even
  significand. A binary64 value is \<open>m * 2^x\<close> with an integer significand \<open>m\<close> of at most 53
  bits. For a quotient \<open>p / q\<close> of positive integers, \<open>binade p q\<close> is the exponent \<open>e\<close> with
  \<open>2^e \<le> p / q < 2^(e + 1)\<close>, found from the bit lengths of \<open>p\<close> and \<open>q\<close>; the significand
  is the quotient scaled by \<open>2^(52 - e)\<close> and rounded to the nearest integer. The divisors
  that occur are 12 and 1 and the dividend is an integer-valued binary64 value, so the
  quotient is zero or in the normal range: no overflow, no subnormal result.
\<close>

fun bit_length :: "nat \<Rightarrow> nat" where
  "bit_length n = (if n = 0 then 0 else Suc (bit_length (n div 2)))"

declare bit_length.simps [simp del]

definition binade :: "int \<Rightarrow> int \<Rightarrow> int" where
  "binade p q =
     (let d = int (bit_length (nat p)) - int (bit_length (nat q)) in
      if (if 0 \<le> d then q * 2 ^ nat d \<le> p else q \<le> p * 2 ^ nat (- d)) then d else d - 1)"

text \<open>The integer nearest to \<open>num / den\<close> for a positive \<open>den\<close>, a tie going to the even one.\<close>

definition round_half_even :: "int \<Rightarrow> int \<Rightarrow> int" where
  "round_half_even num den =
     (let f = num div den; r = num mod den in
      if 2 * r < den then f
      else if den < 2 * r then f + 1
      else if even f then f else f + 1)"

text \<open>\<^verbatim>\<open>a / b\<close> for a positive \<open>b\<close>: the pair \<open>(m, x)\<close> stands for the binary64 value
  \<open>m * 2^x\<close>.\<close>

definition js_div :: "int \<Rightarrow> int \<Rightarrow> int \<times> int" where
  "js_div a b =
     (if a = 0 then (0, 0)
      else let x = binade \<bar>a\<bar> b - 52 in
        (if x \<le> 0 then round_half_even (a * 2 ^ nat (- x)) b
         else round_half_even a (b * 2 ^ nat x), x))"

text \<open>\<^verbatim>\<open>Math.floor\<close> of the value \<open>m * 2^x\<close>; the result is exact.\<close>

fun Math_floor :: "int \<times> int \<Rightarrow> int" where
  "Math_floor (m, x) = (if x \<le> 0 then m div 2 ^ nat (- x) else m * 2 ^ nat x)"

text \<open>\<^verbatim>\<open>Math.floor(a / b)\<close>.\<close>

definition Math_floor_div :: "int \<Rightarrow> int \<Rightarrow> int" where
  "Math_floor_div a b = Math_floor (js_div a b)"

text \<open>
  The binary64 value nearest to an integer \<open>z\<close>, which is what an addition or a
  subtraction of integer-valued numbers with the exact result \<open>z\<close> returns.
\<close>

definition js_number :: "int \<Rightarrow> int" where
  "js_number z = Math_floor (js_div z 1)"

text \<open>Number-to-string conversion of a template literal, on the safe integers (magnitude
  below \<open>2^53\<close>): decimal digits, no leading zero, a minus sign in front of a negative
  number.\<close>

definition digit_char :: "nat \<Rightarrow> char" where
  "digit_char d = ''0123456789'' ! d"

fun nat_digits :: "nat \<Rightarrow> string" where
  "nat_digits n =
     (if n < 10 then [digit_char n] else nat_digits (n div 10) @ [digit_char (n mod 10)])"

declare nat_digits.simps [simp del]

definition Number_toString :: "int \<Rightarrow> string" where
  "Number_toString n =
     (if n < 0 then CHR ''-'' # nat_digits (nat (- n)) else nat_digits (nat n))"

text \<open>Reading a digit string back, to say what "the decimal digits of n" means.\<close>

definition digit_value :: "char \<Rightarrow> nat" where
  "digit_value c = of_char c - 48"

definition decimal_value :: "string \<Rightarrow> nat" where
  "decimal_value ds = foldl (\<lambda>v c. 10 * v + digit_value c) 0 ds"

definition is_digit :: "char \<Rightarrow> bool" where
  "is_digit c = (c \<in> set ''0123456789'')"

text \<open>\<^verbatim>\<open>String.prototype.trim\<close>: white space and line terminators are removed at both
  ends. Among the code units below 256 these are TAB, LF, VT, FF, CR, SP and NBSP.\<close>

definition isWhiteSpace :: "char \<Rightarrow> bool" where
  "isWhiteSpace c = ((of_char c :: nat) \<in> set [9, 10, 11, 12, 13, 32, 160])"

definition String_trim :: "string \<Rightarrow> string" where
  "String_trim s = rev (dropWhile isWhiteSpace (rev (dropWhile isWhiteSpace s)))"

text \<open>\<^verbatim>\<open>String.prototype.toLowerCase\<close>, on the ASCII letters.\<close>

definition char_toLowerCase :: "char \<Rightarrow> char" where
  "char_toLowerCase c =
     (case map_of (zip ''ABCDEFGHIJKLMNOPQRSTUVWXYZ'' ''abcdefghijklmnopqrstuvwxyz'') c of
        Some l \<Rightarrow> l
      | None \<Rightarrow> c)"

definition String_toLowerCase :: "string \<Rightarrow> string" where
  "String_toLowerCase s = map char_toLowerCase s"

text \<open>
  The \<^verbatim>\<open>in\<close> operator looks a property name up in the object and then in its prototype
  chain. The tables of \<^verbatim>\<open>keySignatureDefaults\<close> are object literals, so the names that
  \<^verbatim>\<open>Object.prototype\<close> defines are "in" them too.
\<close>

definition Object_prototype_names :: "string list" where
  "Object_prototype_names =
     [''constructor'', ''hasOwnProperty'', ''isPrototypeOf'', ''propertyIsEnumerable'',
      ''toLocaleString'', ''toString'', ''valueOf'', ''__proto__'',
      ''__defineGetter__'', ''__defineSetter__'', ''__lookupGetter__'', ''__lookupSetter__'']"

definition js_in :: "string \<Rightarrow> (string \<times> 'v) list \<Rightarrow> bool" where
  "js_in x obj = (x \<in> set (map fst obj) \<or> x \<in> set Object_prototype_names)"

section \<open>The data of the key-aware formatter\<close>

datatype Letter = A | B | C | D | E | F | G

datatype Acc = natural | sharp | flat

record Spelling =
  letter :: Letter
  acc :: Acc

datatype error = TypeError

text \<open>A \<^verbatim>\<open>Letter\<close> is its one-character string at run time.\<close>

fun Letter_string :: "Letter \<Rightarrow> string" where
  "Letter_string A = ''A''"
| "Letter_string B = ''B''"
| "Letter_string C = ''C''"
| "Letter_string D = ''D''"
| "Letter_string E = ''E''"
| "Letter_string F = ''F''"
| "Letter_string G = ''G''"

section \<open>Pitch decomposition (formatters.ts, lines 28-29)\<close>

text \<open>In the pitch class the sum \<^verbatim>\<open>(MIDInote % 12) + 12\<close> lies between 1 and 23 and is
  exact. In the octave both the division and the subtraction round.\<close>

definition pitchClass :: "int \<Rightarrow> int" where
  "pitchClass MIDInote = js_rem (js_rem MIDInote 12 + 12) 12"

definition octaveOf :: "int \<Rightarrow> int" where
  "octaveOf MIDInote = js_number (Math_floor_div MIDInote 12 - 1)"

section \<open>The sibling formatters (formatters.ts, lines 6-20)\<close>

definition rawFormatter_format :: "int \<Rightarrow> string \<Rightarrow> string" where
  "rawFormatter_format MIDInote separator = Number_toString MIDInote @ separator"

definition noteNames :: "string list" where
  "noteNames = [''C'', ''C#'', ''D'', ''D#'', ''E'', ''F'', ''F#'', ''G'', ''G#'', ''A'', ''A#'', ''B'']"

text \<open>
  \<^verbatim>\<open>noteNames[MIDInote % 12]\<close>: the remainder of a negative pitch number is negative (or
  minus zero, which reads index 0), and an array read at a negative index gives
  \<^verbatim>\<open>undefined\<close>, which the template literal prints as the word "undefined".
\<close>

definition scientificFormatter_format :: "int \<Rightarrow> string \<Rightarrow> string" where
  "scientificFormatter_format MIDInote separator =
     (let r = js_rem MIDInote 12;
          noteName = (if 0 \<le> r \<and> nat r < length noteNames then noteNames ! nat r
                      else ''undefined'');
          octave = js_number (Math_floor_div MIDInote 12 - 1);
          noteString = noteName @ Number_toString octave @ separator
      in noteString)"

section \<open>The key-aware formatter (formatters.ts, lines 22-144)\<close>

subsection \<open>Helpers (lines 86-142)\<close>

definition normalizeKey :: "string \<Rightarrow> string" where
  "normalizeKey x = String_trim x"

definition preferFlatsInTie :: "string \<Rightarrow> bool" where
  "preferFlatsInTie x =
     (if x = ''C'' then True
      else x \<in> set [''F'', ''Bb'', ''Eb'', ''Ab'', ''Db'', ''Gb'', ''Cb''])"

definition defaults_init :: "Letter \<rightharpoonup> Acc" where
  "defaults_init =
     [A \<mapsto> natural, B \<mapsto> natural, C \<mapsto> natural, D \<mapsto> natural,
      E \<mapsto> natural, F \<mapsto> natural, G \<mapsto> natural]"

definition sharpsOrder :: "Letter list" where
  "sharpsOrder = [F, C, G, D, A, E, B]"

definition flatsOrder :: "Letter list" where
  "flatsOrder = [B, E, A, D, G, C, F]"

definition keyToSharpsCount :: "(string \<times> nat) list" where
  "keyToSharpsCount =
     [(''C'', 0), (''G'', 1), (''D'', 2), (''A'', 3), (''E'', 4), (''B'', 5), (''F#'', 6), (''C#'', 7)]"

definition keyToFlatsCount :: "(string \<times> nat) list" where
  "keyToFlatsCount =
     [(''C'', 0), (''F'', 1), (''Bb'', 2), (''Eb'', 3), (''Ab'', 4), (''Db'', 5), (''Gb'', 6), (''Cb'', 7)]"

text \<open>
  The loop \<^verbatim>\<open>for (let i = 0; i < n; i++) defaults[order[i]] = a\<close>. A read of \<^verbatim>\<open>order\<close>
  past its end gives \<^verbatim>\<open>undefined\<close>, and the assignment then sets a property that is no
  letter: the seven letter entries stay as they are.
\<close>

function mark_loop :: "nat \<Rightarrow> nat \<Rightarrow> Letter list \<Rightarrow> Acc \<Rightarrow> (Letter \<rightharpoonup> Acc) \<Rightarrow> (Letter \<rightharpoonup> Acc)" where
  "mark_loop i n order a defaults =
     (if i < n
      then mark_loop (i + 1) n order a
             (if i < length order then defaults(order ! i \<mapsto> a) else defaults)
      else defaults)"
  by pat_completeness auto
termination
  by (relation "measure (\<lambda>(i, n, order, a, defaults). n - i)") auto

declare mark_loop.simps [simp del]

text \<open>
  A name that is "in" a table only through \<^verbatim>\<open>Object.prototype\<close> reads a value that is
  no number; \<^verbatim>\<open>i < n\<close> is then false at once and the loop body never runs.
\<close>

definition keySignatureDefaults :: "string \<Rightarrow> (Letter \<rightharpoonup> Acc)" where
  "keySignatureDefaults x =
     (let defaults = defaults_init in
      if js_in x keyToSharpsCount then
        (case map_of keyToSharpsCount x of
           Some n \<Rightarrow> mark_loop 0 n sharpsOrder sharp defaults
         | None \<Rightarrow> defaults)
      else if js_in x keyToFlatsCount then
        (case map_of keyToFlatsCount x of
           Some n \<Rightarrow> mark_loop 0 n flatsOrder flat defaults
         | None \<Rightarrow> defaults)
      else defaults)"

text \<open>The default read for a letter is an \<^typ>\<open>Acc option\<close>: \<open>None\<close> is \<^verbatim>\<open>undefined\<close>.\<close>

definition accidentalPrefix :: "Acc \<Rightarrow> Acc option \<Rightarrow> string" where
  "accidentalPrefix a defaultAcc =
     (if Some a = defaultAcc then []
      else if a = sharp then ''^''
      else if a = flat then ''_''
      else ''='')"

function commas_loop :: "int \<Rightarrow> string \<Rightarrow> string" where
  "commas_loop i out = (if i < 4 then commas_loop (i + 1) (out @ '','') else out)"
  by pat_completeness auto
termination
  by (relation "measure (\<lambda>(i, out). nat (4 - i))") auto

declare commas_loop.simps [simp del]

function apostrophes_loop :: "int \<Rightarrow> string \<Rightarrow> string" where
  "apostrophes_loop i out = (if i > 5 then apostrophes_loop (i - 1) (out @ [CHR 0x27]) else out)"
  by pat_completeness auto
termination
  by (relation "measure (\<lambda>(i, out). nat (i - 5))") auto

declare apostrophes_loop.simps [simp del]

definition applyAbcOctave :: "Letter \<Rightarrow> int \<Rightarrow> string" where
  "applyAbcOctave l oct =
     (if oct \<le> 4 then commas_loop oct (Letter_string l)
      else apostrophes_loop oct (String_toLowerCase (Letter_string l)))"

subsection \<open>The candidate table (lines 32-51)\<close>

definition candMap :: "(int \<times> Spelling list) list" where
  "candMap =
     [(0, [\<lparr>letter = C, acc = natural\<rparr>]),
      (1, [\<lparr>letter = C, acc = sharp\<rparr>, \<lparr>letter = D, acc = flat\<rparr>]),
      (2, [\<lparr>letter = D, acc = natural\<rparr>]),
      (3, [\<lparr>letter = D, acc = sharp\<rparr>, \<lparr>letter = E, acc = flat\<rparr>]),
      (4, [\<lparr>letter = E, acc = natural\<rparr>]),
      (5, [\<lparr>letter = F, acc = natural\<rparr>]),
      (6, [\<lparr>letter = F, acc = sharp\<rparr>, \<lparr>letter = G, acc = flat\<rparr>]),
      (7, [\<lparr>letter = G, acc = natural\<rparr>]),
      (8, [\<lparr>letter = G, acc = sharp\<rparr>, \<lparr>letter = A, acc = flat\<rparr>]),
      (9, [\<lparr>letter = A, acc = natural\<rparr>]),
      (10, [\<lparr>letter = A, acc = sharp\<rparr>, \<lparr>letter = B, acc = flat\<rparr>]),
      (11, [\<lparr>letter = B, acc = natural\<rparr>])]"

definition candidatesFor :: "int \<Rightarrow> Spelling list" where
  "candidatesFor pc =
     (case map_of candMap pc of
        Some cs \<Rightarrow> cs
      | None \<Rightarrow> [\<lparr>letter = C, acc = natural\<rparr>])"

subsection \<open>The selection loop (lines 55-77)\<close>

definition spellingCost :: "(Letter \<rightharpoonup> Acc) \<Rightarrow> Spelling \<Rightarrow> int" where
  "spellingCost keyDefaults cand =
     (let def = keyDefaults (letter cand);
          needed = (Some (acc cand) \<noteq> def)
      in if needed then 1 else 0)"

text \<open>One pass of the loop body over the state \<open>(best, bestCost)\<close>.\<close>

fun select_step :: "(Letter \<rightharpoonup> Acc) \<Rightarrow> bool \<Rightarrow> Spelling \<times> int \<Rightarrow> Spelling \<Rightarrow> Spelling \<times> int" where
  "select_step keyDefaults preferFlats (best, bestCost) cand =
     (let cost = spellingCost keyDefaults cand in
      if cost < bestCost then (cand, cost)
      else if cost = bestCost then
        (if preferFlats
         then (if acc cand = flat \<and> acc best \<noteq> flat then (cand, bestCost) else (best, bestCost))
         else (if acc cand = sharp \<and> acc best \<noteq> sharp then (cand, bestCost) else (best, bestCost)))
      else (best, bestCost))"

text \<open>
  \<open>best\<close> starts as \<^verbatim>\<open>candidates[0]\<close>, which is \<^verbatim>\<open>undefined\<close> for an empty list; the
  loop then does not run and \<open>best\<close> stays undefined (\<open>None\<close>).
\<close>

definition selectSpelling :: "(Letter \<rightharpoonup> Acc) \<Rightarrow> bool \<Rightarrow> Spelling list \<Rightarrow> Spelling option" where
  "selectSpelling keyDefaults preferFlats candidates =
     (case candidates of
        [] \<Rightarrow> None
      | c0 # _ \<Rightarrow> Some (fst (foldl (select_step keyDefaults preferFlats) (c0, 999) candidates)))"

subsection \<open>The formatter (lines 23-82)\<close>

text \<open>
  The third parameter is optional with default \<^verbatim>\<open>'C'\<close>; the separator is accepted and
  not used. Reading \<^verbatim>\<open>best.acc\<close> of an undefined \<open>best\<close> throws a \<^verbatim>\<open>TypeError\<close>.
\<close>

definition ABCFormatter_format :: "int \<Rightarrow> string \<Rightarrow> string option \<Rightarrow> error + string" where
  "ABCFormatter_format MIDInote separator key_arg =
     (let key = (case key_arg of None \<Rightarrow> ''C'' | Some s \<Rightarrow> s);
          pc = pitchClass MIDInote;
          octave = octaveOf MIDInote;
          k = normalizeKey key;
          keyDefaults = keySignatureDefaults k;
          preferFlats = preferFlatsInTie k;
          candidates = candidatesFor pc
      in case selectSpelling keyDefaults preferFlats candidates of
           None \<Rightarrow> Inl TypeError
         | Some best \<Rightarrow>
             (let accPrefix = accidentalPrefix (acc best) (keyDefaults (letter best));
                  noteBody = applyAbcOctave (letter best) octave
              in Inr (accPrefix @ noteBody)))"

text \<open>The key names the capture dialog offers (main.ts, \<^verbatim>\<open>KeySelectModal\<close>).\<close>

definition supportedKeys :: "string list" where
  "supportedKeys =
     [''C'', ''G'', ''D'', ''A'', ''E'', ''B'', ''F#'', ''C#'',
      ''F'', ''Bb'', ''Eb'', ''Ab'', ''Db'', ''Gb'', ''Cb'']"

section \<open>The dispatch of the plugin (main.ts, lines 4-18 and 36-49)\<close>

text \<open>
  The members of \<^verbatim>\<open>ExportType\<close> are strings, and the settings are read from stored data:
  the export type is modelled as the string it is. The \<^verbatim>\<open>switch\<close> has no default branch,
  so any other string leaves the initial note string in place. A formatter that throws
  makes \<^verbatim>\<open>writeNoteToEditor\<close> throw.
\<close>

definition ExportType_RawMessage :: string where
  "ExportType_RawMessage = ''raw''"

definition ExportType_Scientific :: string where
  "ExportType_Scientific = ''scientific''"

definition ExportType_ABC :: string where
  "ExportType_ABC = ''abc''"

record MIDILoggerSettings =
  exportType :: string
  separator :: string

definition DEFAULT_SETTINGS :: MIDILoggerSettings where
  "DEFAULT_SETTINGS = \<lparr>exportType = ExportType_Scientific, separator = '',''\<rparr>"

definition writeNoteToEditor_noteString :: "MIDILoggerSettings \<Rightarrow> string \<Rightarrow> int \<Rightarrow> error + string" where
  "writeNoteToEditor_noteString settings currentKey note =
     (if exportType settings = ExportType_RawMessage
        then Inr (rawFormatter_format note (separator settings))
      else if exportType settings = ExportType_Scientific
        then Inr (scientificFormatter_format note (separator settings))
      else if exportType settings = ExportType_ABC
        then ABCFormatter_format note (separator settings) (Some currentKey)
      else Inr ''<UNKNOWN_FORMAT>'')"

section \<open>Facts about the primitives\<close>


lemma js_rem_nonneg: "0 \<le> a \<Longrightarrow> js_rem a 12 = a mod 12"
  by (cases "a = 0") (simp_all add: js_rem_def)

lemma js_rem_neg: "a < 0 \<Longrightarrow> js_rem a 12 = - ((- a) mod 12)"
  by (simp add: js_rem_def)

lemma js_rem_lower: "- 12 < js_rem a 12"
proof (cases "0 \<le> a")
  case True
  then show ?thesis by (simp add: js_rem_nonneg)
next
  case False
  then have "js_rem a 12 = - ((- a) mod 12)" by (simp add: js_rem_neg)
  moreover have "(- a) mod 12 < 12" by simp
  ultimately show ?thesis by linarith
qed

lemma js_rem_cong12: "(js_rem a 12 + 12) mod 12 = a mod 12"
proof (cases "0 \<le> a")
  case True
  then show ?thesis by (simp add: js_rem_nonneg)
next
  case False
  then have "js_rem a 12 = - ((- a) mod 12)" by (simp add: js_rem_neg)
  then have "(js_rem a 12 + 12) mod 12 = (- ((- a) mod 12)) mod 12" by simp
  also have "\<dots> = (- (- a)) mod 12" by (simp only: mod_minus_eq)
  finally show ?thesis by simp
qed

lemma pitchClass_mod: "pitchClass n = n mod 12"
proof -
  have "0 \<le> js_rem n 12 + 12" using js_rem_lower [of n] by linarith
  then have "pitchClass n = (js_rem n 12 + 12) mod 12"
    unfolding pitchClass_def by (rule js_rem_nonneg)
  then show ?thesis by (simp only: js_rem_cong12)
qed

section \<open>Facts about binary64 division\<close>

lemma bit_length_0: "bit_length 0 = 0"
  by (simp add: bit_length.simps)

lemma bit_length_pos: "0 < n \<Longrightarrow> bit_length n = Suc (bit_length (n div 2))"
  by (simp add: bit_length.simps [of n])

text \<open>The rules that evaluate the binary64 operations at a numeral.\<close>

lemmas binary64_eval = Math_floor_div_def js_number_def js_div_def binade_def
  round_half_even_def bit_length_0 bit_length_pos Let_def

lemma bit_length_bounds_nat:
  "0 < n \<Longrightarrow> 2 ^ (bit_length n - 1) \<le> n \<and> n < 2 ^ bit_length n"
proof (induction n rule: bit_length.induct)
  case (1 n)
  show ?case
  proof (cases "n div 2 = 0")
    case True
    with "1.prems" have "n = 1" by presburger
    then show ?thesis by (simp add: bit_length_pos bit_length_0)
  next
    case False
    then have pos: "0 < n div 2" by simp
    from "1.prems" have n0: "n \<noteq> 0" by simp
    have IH: "2 ^ (bit_length (n div 2) - 1) \<le> n div 2 \<and> n div 2 < 2 ^ bit_length (n div 2)"
      using "1.IH" [OF n0 pos] .
    have bl: "bit_length n = Suc (bit_length (n div 2))"
      using "1.prems" by (rule bit_length_pos)
    have "0 < bit_length (n div 2)" using pos by (simp add: bit_length_pos)
    then have ex: "2 ^ bit_length (n div 2) = 2 * (2::nat) ^ (bit_length (n div 2) - 1)"
      by (cases "bit_length (n div 2)") simp_all
    have lo: "2 ^ bit_length (n div 2) \<le> n" using IH ex by presburger
    have hi: "n < 2 * 2 ^ bit_length (n div 2)" using IH by presburger
    show ?thesis using lo hi by (simp add: bl)
  qed
qed

lemma bit_length_bounds:
  assumes "0 < p"
  shows "(2::int) ^ (bit_length (nat p) - 1) \<le> p \<and> p < 2 ^ bit_length (nat p)"
proof -
  have "0 < nat p" using assms by simp
  from bit_length_bounds_nat [OF this]
  have "int (2 ^ (bit_length (nat p) - 1)) \<le> int (nat p) \<and> int (nat p) < int (2 ^ bit_length (nat p))"
    by (simp only: of_nat_le_iff of_nat_less_iff)
  then show ?thesis using assms by simp
qed

lemma bit_length_pos_int: "0 < p \<Longrightarrow> 0 < bit_length (nat p)"
  by (simp add: bit_length_pos)

text \<open>The exponent found is the binade of the quotient: \<open>2^e \<le> p/q < 2^(e+1)\<close>.\<close>

lemma binade_bounds:
  assumes p: "0 < p" and q: "0 < q"
  shows "(0 \<le> binade p q \<longrightarrow>
            q * 2 ^ nat (binade p q) \<le> p \<and> p < q * 2 ^ Suc (nat (binade p q)))
       \<and> (binade p q < 0 \<longrightarrow>
            q \<le> p * 2 ^ nat (- binade p q) \<and> p * 2 ^ (nat (- binade p q) - 1) < q)"
proof -
  define P where "P = bit_length (nat p)"
  define Q where "Q = bit_length (nat q)"
  define d where "d = int P - int Q"
  have Ppos: "0 < P" and Qpos: "0 < Q"
    using p q by (simp_all add: P_def Q_def bit_length_pos_int)
  have pb: "(2::int) ^ (P - 1) \<le> p" "p < 2 ^ P"
    using bit_length_bounds [OF p] by (simp_all add: P_def)
  have qb: "(2::int) ^ (Q - 1) \<le> q" "q < 2 ^ Q"
    using bit_length_bounds [OF q] by (simp_all add: Q_def)
  have e: "binade p q =
      (if (if 0 \<le> d then q * 2 ^ nat d \<le> p else q \<le> p * 2 ^ nat (- d)) then d else d - 1)"
    by (simp add: binade_def P_def Q_def d_def)
  have pw: "(2::int) ^ (m + k) = 2 ^ m * 2 ^ k" for m k :: nat by (rule power_add)
  have p2: "(0::int) < 2 ^ k" for k :: nat by simp
  consider (a) "0 \<le> d" "q * 2 ^ nat d \<le> p"
    | (b) "1 \<le> d" "\<not> q * 2 ^ nat d \<le> p"
    | (c) "d = 0" "\<not> q * 2 ^ nat d \<le> p"
    | (d) "d < 0" "q \<le> p * 2 ^ nat (- d)"
    | (e) "d < 0" "\<not> q \<le> p * 2 ^ nat (- d)"
    by linarith
  then show ?thesis
  proof cases
    case a
    then have e': "binade p q = d" by (simp add: e)
    have "P = (Q - 1) + Suc (nat d)" using a(1) Qpos unfolding d_def by linarith
    then have "(2::int) ^ P = 2 ^ (Q - 1) * 2 ^ Suc (nat d)" by (simp only: pw)
    also have "\<dots> \<le> q * 2 ^ Suc (nat d)"
      using qb(1) by (intro mult_right_mono) simp_all
    finally have "p < q * 2 ^ Suc (nat d)" using pb(2) by linarith
    with a show ?thesis by (simp add: e')
  next
    case b
    then have e': "binade p q = d - 1" by (simp add: e)
    have dd: "nat d = Suc (nat (d - 1))" using b(1) by simp
    have "Q + nat (d - 1) = P - 1" using b(1) Ppos unfolding d_def by linarith
    then have "(2::int) ^ (P - 1) = 2 ^ Q * 2 ^ nat (d - 1)" by (simp only: pw [symmetric])
    moreover have "q * 2 ^ nat (d - 1) \<le> 2 ^ Q * 2 ^ nat (d - 1)"
      using qb(2) by (intro mult_right_mono) simp_all
    ultimately have lo: "q * 2 ^ nat (d - 1) \<le> p" using pb(1) by linarith
    have hi: "p < q * 2 ^ Suc (nat (d - 1))" using b(2) dd by simp
    show ?thesis using b(1) lo hi by (simp add: e')
  next
    case c
    then have e': "binade p q = - 1" by (simp add: e)
    have "Q = Suc (P - 1)" using c(1) Ppos by (simp add: d_def)
    then have "(2::int) ^ Q = 2 ^ Suc (P - 1)" by (rule arg_cong)
    then have "(2::int) ^ Q = 2 * 2 ^ (P - 1)" by (simp only: power_Suc)
    then have lo: "q \<le> p * 2" using qb(2) pb(1) by linarith
    have hi: "p < q" using c by simp
    show ?thesis using lo hi by (simp add: e')
  next
    case d
    then have e': "binade p q = d" by (simp add: e)
    have "P + (nat (- d) - 1) = Q - 1" using d(1) Qpos unfolding d_def by linarith
    then have "(2::int) ^ (Q - 1) = 2 ^ P * 2 ^ (nat (- d) - 1)" by (simp only: pw [symmetric])
    moreover have "p * 2 ^ (nat (- d) - 1) < 2 ^ P * 2 ^ (nat (- d) - 1)"
      using pb(2) by (intro mult_strict_right_mono) simp_all
    ultimately have hi: "p * 2 ^ (nat (- d) - 1) < q" using qb(1) by linarith
    show ?thesis using d hi by (simp add: e')
  next
    case e
    then have e': "binade p q = d - 1" using e(1) by (simp add: \<open>binade p q = _\<close>)
    have nd: "nat (1 - d) = Suc (nat (- d))" using e(1) by simp
    have "Q = (P - 1) + Suc (nat (- d))" using e(1) Ppos unfolding d_def by linarith
    then have "(2::int) ^ Q = 2 ^ (P - 1) * 2 ^ Suc (nat (- d))" by (simp only: pw)
    also have "\<dots> \<le> p * 2 ^ Suc (nat (- d))"
      using pb(1) by (intro mult_right_mono) simp_all
    finally have lo: "q \<le> p * 2 ^ Suc (nat (- d))" using qb(2) by linarith
    have hi: "p * 2 ^ nat (- d) < q" using e(2) by simp
    show ?thesis using e(1) lo hi by (simp add: e' nd)
  qed
qed


text \<open>The rounded significand is a nearest integer: the error is at most one half.\<close>

lemma round_half_even_nearest:
  assumes "0 < den"
  shows "2 * \<bar>round_half_even num den * den - num\<bar> \<le> den"
proof -
  have eq: "num = num div den * den + num mod den" by simp
  have r: "0 \<le> num mod den \<and> num mod den < den" using assms by simp
  have up: "(num div den + 1) * den - num = den - num mod den"
    using eq by (simp add: algebra_simps)
  have dn: "num div den * den - num = - (num mod den)"
    using eq by (simp add: algebra_simps)
  show ?thesis
    using r by (auto simp add: round_half_even_def Let_def up dn)
qed

lemma round_half_even_lower: "num div den \<le> round_half_even num den"
  by (simp add: round_half_even_def Let_def)

lemma round_half_even_upper:
  assumes "0 < den"
  shows "round_half_even num den \<le> (2 * num + den) div (2 * den)"
proof -
  define f where "f = num div den"
  define r where "r = num mod den"
  have eq: "num = f * den + r" by (simp add: f_def r_def)
  have r: "0 \<le> r \<and> r < den" using assms by (simp add: r_def)
  have "2 * num + den = (2 * den) * f + (2 * r + den)" using eq by (simp add: algebra_simps)
  have lowcase: "(2 * num + den) div (2 * den) = f" if "2 * r < den"
  proof (rule int_div_pos_eq)
    show "2 * num + den = (2 * den) * f + (2 * r + den)" using eq by (simp add: algebra_simps)
    show "0 \<le> 2 * r + den" using r by linarith
    show "2 * r + den < 2 * den" using that by linarith
  qed
  have highcase: "(2 * num + den) div (2 * den) = f + 1" if "den \<le> 2 * r"
  proof (rule int_div_pos_eq)
    show "2 * num + den = (2 * den) * (f + 1) + (2 * r - den)" using eq by (simp add: algebra_simps)
    show "0 \<le> 2 * r - den" using that by linarith
    show "2 * r - den < 2 * den" using r by linarith
  qed
  show ?thesis
  proof (cases "2 * r < den")
    case True
    then show ?thesis
      using lowcase by (simp add: round_half_even_def Let_def f_def [symmetric] r_def [symmetric])
  next
    case False
    then have "den \<le> 2 * r" by simp
    from highcase [OF this] show ?thesis
      by (simp add: round_half_even_def Let_def f_def [symmetric] r_def [symmetric])
  qed
qed

lemma binade_small:
  assumes "0 < p" and "0 < q" and "p < q * 2 ^ k"
  shows "binade p q < int k"
proof (rule ccontr)
  assume "\<not> binade p q < int k"
  then have ge: "int k \<le> binade p q" by simp
  then have nn: "0 \<le> binade p q" by linarith
  from binade_bounds [OF assms(1,2)] nn have lo: "q * 2 ^ nat (binade p q) \<le> p" by blast
  have "k \<le> nat (binade p q)" using ge by linarith
  then have "(2::int) ^ k \<le> 2 ^ nat (binade p q)" by (intro power_increasing) simp_all
  then have "q * 2 ^ k \<le> q * 2 ^ nat (binade p q)"
    using assms(2) by (intro mult_left_mono) simp_all
  with lo assms(3) show False by linarith
qed

text \<open>
  Within the safe integers (magnitude below \<open>2^53\<close>) the quotient by 12 lies below \<open>2^50\<close>,
  so its binary64 neighbours are at most 1/8 apart while its distance to the next integer
  above is at least 1/12: rounding never reaches that integer, and the floor is exact.
\<close>

lemma Math_floor_div_exact:
  assumes "\<bar>a\<bar> < 9007199254740992"
  shows "Math_floor_div a 12 = a div 12"
proof (cases "a = 0")
  case True
  then show ?thesis by (simp add: Math_floor_div_def js_div_def)
next
  case False
  then have p: "0 < \<bar>a\<bar>" by simp
  have "\<bar>a\<bar> < 12 * 2 ^ 50" using assms by simp
  from binade_small [OF p _ this] have e: "binade \<bar>a\<bar> 12 < 50" by simp
  define s where "s = nat (52 - binade \<bar>a\<bar> 12)"
  define P where "P = (2::int) ^ s"
  have s3: "3 \<le> s" using e by (simp add: s_def)
  have "(2::int) ^ 3 \<le> 2 ^ s" using s3 by (intro power_increasing) simp_all
  then have P8: "8 \<le> P" by (simp add: P_def)
  define m where "m = round_half_even (a * P) 12"
  have fd: "Math_floor_div a 12 = m div P"
    using False e by (simp add: Math_floor_div_def js_div_def Let_def m_def P_def s_def)
  define k where "k = a div 12"
  define r where "r = a mod 12"
  define K where "K = k * P"
  have a: "a = 12 * k + r" by (simp add: k_def r_def)
  have r: "0 \<le> r \<and> r \<le> 11" using pos_mod_bound [of 12 a] pos_mod_sign [of 12 a] by (simp add: r_def)
  define rP where "rP = r * P"
  have aP: "a * P = 12 * K + rP" by (simp add: a K_def rP_def algebra_simps)
  have rP: "0 \<le> rP \<and> rP \<le> 11 * P"
    using r P8 by (simp add: rP_def mult_right_mono)
  have lo: "K \<le> m"
  proof -
    have "K \<le> (12 * K + rP) div 12" using rP by linarith
    then have "K \<le> (a * P) div 12" by (simp only: aP)
    also have "\<dots> \<le> m" unfolding m_def by (rule round_half_even_lower)
    finally show ?thesis .
  qed
  have hi: "m < K + P"
  proof -
    have "m \<le> (2 * (a * P) + 12) div (2 * 12)" unfolding m_def by (rule round_half_even_upper) simp
    also have "\<dots> < K + P"
    proof -
      define X where "X = a * P"
      have X: "X = 12 * K + rP" using aP by (simp only: X_def)
      have "2 * X + 12 < 24 * K + 24 * P" using X rP P8 by linarith
      then have "(2 * X + 12) div 24 < K + P" by linarith
      then show ?thesis by (simp add: X_def)
    qed
    finally show ?thesis .
  qed
  have "m div P = k"
  proof (rule int_div_pos_eq)
    show "m = P * k + (m - K)" by (simp add: K_def algebra_simps)
    show "0 \<le> m - K" using lo by simp
    show "m - K < P" using hi by simp
  qed
  then show ?thesis by (simp add: fd k_def)
qed

lemma js_number_exact:
  assumes "\<bar>z\<bar> < 9007199254740992"
  shows "js_number z = z"
proof (cases "z = 0")
  case True
  then show ?thesis by (simp add: js_number_def js_div_def)
next
  case False
  then have p: "0 < \<bar>z\<bar>" by simp
  have "\<bar>z\<bar> < 1 * 2 ^ 53" using assms by simp
  from binade_small [OF p _ this] have e: "binade \<bar>z\<bar> 1 < 53" by simp
  have rd: "round_half_even n 1 = n" for n by (simp add: round_half_even_def)
  show ?thesis
    using False e by (simp add: js_number_def js_div_def Let_def rd)
qed

lemma octaveOf_exact:
  assumes "\<bar>n\<bar> < 9007199254740992"
  shows "octaveOf n = n div 12 - 1"
proof -
  have "\<bar>n div 12 - 1\<bar> < 9007199254740992" using assms by linarith
  then show ?thesis
    by (simp add: octaveOf_def Math_floor_div_exact [OF assms] js_number_exact)
qed

section \<open>Facts about the octave marks\<close>

lemma commas_loop_eq: "commas_loop i out = out @ replicate (nat (4 - i)) (CHR '','')"
proof (induction i out rule: commas_loop.induct)
  case (1 i out)
  show ?case
  proof (cases "i < 4")
    case True
    then have n: "nat (4 - i) = Suc (nat (4 - (i + 1)))" by simp
    have "commas_loop i out = commas_loop (i + 1) (out @ '','')"
      using True by (simp add: commas_loop.simps [of i])
    also have "\<dots> = (out @ '','') @ replicate (nat (4 - (i + 1))) (CHR '','')"
      using "1.IH" [OF True] .
    finally show ?thesis by (simp only: n replicate_Suc append_assoc append_Cons append_Nil)
  next
    case False
    then show ?thesis by (simp add: commas_loop.simps [of i])
  qed
qed

lemma apostrophes_loop_eq: "apostrophes_loop i out = out @ replicate (nat (i - 5)) (CHR 0x27)"
proof (induction i out rule: apostrophes_loop.induct)
  case (1 i out)
  show ?case
  proof (cases "i > 5")
    case True
    then have n: "nat (i - 5) = Suc (nat (i - 1 - 5))" by simp
    have "apostrophes_loop i out = apostrophes_loop (i - 1) (out @ [CHR 0x27])"
      using True by (simp add: apostrophes_loop.simps [of i])
    also have "\<dots> = (out @ [CHR 0x27]) @ replicate (nat (i - 1 - 5)) (CHR 0x27)"
      using "1.IH" [OF True] .
    finally show ?thesis by (simp only: n replicate_Suc append_assoc append_Cons append_Nil)
  next
    case False
    then show ?thesis by (simp add: apostrophes_loop.simps [of i])
  qed
qed

section \<open>Facts about the key model\<close>

lemma defaults_init_apply: "defaults_init l = Some natural"
  by (cases l) (simp_all add: defaults_init_def)

lemma drop_take_step:
  "i < n \<Longrightarrow> set (drop i (take n order)) =
     (if i < length order then {order ! i} else {}) \<union> set (drop (i + 1) (take n order))"
proof (cases "i < length order")
  case True
  assume "i < n"
  with True have "i < length (take n order)" by simp
  then have "drop i (take n order) = (take n order) ! i # drop (Suc i) (take n order)"
    by (rule Cons_nth_drop_Suc [symmetric])
  with \<open>i < n\<close> True show ?thesis by simp
next
  case False
  then show ?thesis by simp
qed

lemma mark_loop_apply:
  "mark_loop i n order a defaults l =
     (if l \<in> set (drop i (take n order)) then Some a else defaults l)"
proof (induction i n order a defaults rule: mark_loop.induct)
  case (1 i n order a defaults)
  show ?case
  proof (cases "i < n")
    case True
    have "mark_loop i n order a defaults l =
            mark_loop (i + 1) n order a
              (if i < length order then defaults(order ! i \<mapsto> a) else defaults) l"
      using True by (simp add: mark_loop.simps [of i])
    also have "\<dots> = (if l \<in> set (drop (i + 1) (take n order)) then Some a
                     else (if i < length order then defaults(order ! i \<mapsto> a) else defaults) l)"
      using "1.IH" [OF True] .
    finally show ?thesis
      using drop_take_step [OF True, of order] by auto
  next
    case False
    then show ?thesis by (simp add: mark_loop.simps [of i])
  qed
qed

lemma keySignatureDefaults_sharp:
  assumes "map_of keyToSharpsCount x = Some N"
  shows "keySignatureDefaults x l = Some (if l \<in> set (take N sharpsOrder) then sharp else natural)"
proof -
  have "x \<in> set (map fst keyToSharpsCount)"
    using assms by (metis map_of_eq_None_iff option.distinct(1) set_map)
  then have "js_in x keyToSharpsCount" by (simp add: js_in_def)
  then show ?thesis
    using assms by (simp add: keySignatureDefaults_def mark_loop_apply defaults_init_apply)
qed

lemma keySignatureDefaults_flat:
  assumes "map_of keyToFlatsCount x = Some N" and "\<not> js_in x keyToSharpsCount"
  shows "keySignatureDefaults x l = Some (if l \<in> set (take N flatsOrder) then flat else natural)"
proof -
  have "x \<in> set (map fst keyToFlatsCount)"
    using assms(1) by (metis map_of_eq_None_iff option.distinct(1) set_map)
  then have "js_in x keyToFlatsCount" by (simp add: js_in_def)
  then show ?thesis
    using assms by (simp add: keySignatureDefaults_def mark_loop_apply defaults_init_apply)
qed

lemma keySignatureDefaults_total: "keySignatureDefaults x l \<noteq> None"
  by (simp add: keySignatureDefaults_def mark_loop_apply defaults_init_apply split: option.splits)

lemma keySignatureDefaults_unrecognized:
  assumes "x \<notin> set supportedKeys"
  shows "keySignatureDefaults x = defaults_init"
proof -
  have s: "map_of keyToSharpsCount x = None" and f: "map_of keyToFlatsCount x = None"
    using assms by (simp_all add: supportedKeys_def keyToSharpsCount_def keyToFlatsCount_def)
  show ?thesis by (simp add: keySignatureDefaults_def s f)
qed

lemma keySignatureDefaults_C: "keySignatureDefaults ''C'' = defaults_init"
proof
  fix l
  have "map_of keyToSharpsCount ''C'' = Some 0" by (simp add: keyToSharpsCount_def)
  from keySignatureDefaults_sharp [OF this, of l]
  show "keySignatureDefaults ''C'' l = defaults_init l" by (simp add: defaults_init_apply)
qed

lemma nat_1_to_7: "1 \<le> N \<Longrightarrow> N \<le> 7 \<Longrightarrow> N = 1 \<or> N = 2 \<or> N = 3 \<or> N = 4 \<or> N = 5 \<or> N = 6 \<or> N = (7::nat)"
  by arith

lemma sharp_key_count:
  assumes "1 \<le> N" and "N \<le> 7"
  shows "map_of keyToSharpsCount ([''G'', ''D'', ''A'', ''E'', ''B'', ''F#'', ''C#''] ! (N - 1)) = Some N"
  using nat_1_to_7 [OF assms] by (elim disjE) (simp_all add: keyToSharpsCount_def)

lemma flat_key_count:
  assumes "1 \<le> N" and "N \<le> 7"
  shows "map_of keyToFlatsCount ([''F'', ''Bb'', ''Eb'', ''Ab'', ''Db'', ''Gb'', ''Cb''] ! (N - 1)) = Some N
       \<and> \<not> js_in ([''F'', ''Bb'', ''Eb'', ''Ab'', ''Db'', ''Gb'', ''Cb''] ! (N - 1)) keyToSharpsCount"
  using nat_1_to_7 [OF assms]
  by (elim disjE) (simp_all add: keyToFlatsCount_def keyToSharpsCount_def js_in_def Object_prototype_names_def)

section \<open>Facts about the selection\<close>

lemma normalizeKey_supported: "k \<in> set supportedKeys \<Longrightarrow> normalizeKey k = k"
  by (auto simp add: supportedKeys_def normalizeKey_def String_trim_def isWhiteSpace_def)

lemma candidatesFor_values:
  "candidatesFor 0 = [\<lparr>letter = C, acc = natural\<rparr>]"
  "candidatesFor 1 = [\<lparr>letter = C, acc = sharp\<rparr>, \<lparr>letter = D, acc = flat\<rparr>]"
  "candidatesFor 2 = [\<lparr>letter = D, acc = natural\<rparr>]"
  "candidatesFor 3 = [\<lparr>letter = D, acc = sharp\<rparr>, \<lparr>letter = E, acc = flat\<rparr>]"
  "candidatesFor 4 = [\<lparr>letter = E, acc = natural\<rparr>]"
  "candidatesFor 5 = [\<lparr>letter = F, acc = natural\<rparr>]"
  "candidatesFor 6 = [\<lparr>letter = F, acc = sharp\<rparr>, \<lparr>letter = G, acc = flat\<rparr>]"
  "candidatesFor 7 = [\<lparr>letter = G, acc = natural\<rparr>]"
  "candidatesFor 8 = [\<lparr>letter = G, acc = sharp\<rparr>, \<lparr>letter = A, acc = flat\<rparr>]"
  "candidatesFor 9 = [\<lparr>letter = A, acc = natural\<rparr>]"
  "candidatesFor 10 = [\<lparr>letter = A, acc = sharp\<rparr>, \<lparr>letter = B, acc = flat\<rparr>]"
  "candidatesFor 11 = [\<lparr>letter = B, acc = natural\<rparr>]"
  by (simp_all add: candidatesFor_def candMap_def)

lemma candidatesFor_nonempty: "candidatesFor pc \<noteq> []"
  by (simp add: candidatesFor_def candMap_def)

lemma spellingCost_le_1: "spellingCost kd c = 0 \<or> spellingCost kd c = 1"
  by (simp add: spellingCost_def)

text \<open>A single candidate is chosen whatever the key.\<close>

lemma selectSpelling_single: "selectSpelling kd pf [c] = Some c"
  using spellingCost_le_1 [of kd c] by (auto simp add: selectSpelling_def Let_def)

text \<open>Two candidates, the first sharp and the second flat.\<close>

lemma selectSpelling_pair:
  assumes "acc c1 = sharp" and "acc c2 = flat"
  shows "selectSpelling kd pf [c1, c2] =
           Some (if spellingCost kd c2 < spellingCost kd c1 then c2
                 else if spellingCost kd c2 = spellingCost kd c1 \<and> pf then c2
                 else c1)"
  using spellingCost_le_1 [of kd c1] spellingCost_le_1 [of kd c2] assms
  by (auto simp add: selectSpelling_def Let_def)

lemma selectSpelling_mem:
  "candidates \<noteq> [] \<Longrightarrow> \<exists>best. selectSpelling kd pf candidates = Some best \<and> best \<in> set candidates"
proof -
  have inv: "fst (foldl (select_step kd pf) st cs) \<in> insert (fst st) (set cs)" for st cs
  proof (induction cs arbitrary: st)
    case Nil
    then show ?case by simp
  next
    case (Cons c cs)
    obtain b bc where st: "st = (b, bc)" by (cases st)
    have step: "fst (select_step kd pf st c) = fst st \<or> fst (select_step kd pf st c) = c"
      unfolding st by (simp add: Let_def)
    have "fst (foldl (select_step kd pf) (select_step kd pf st c) cs)
            \<in> insert (fst (select_step kd pf st c)) (set cs)"
      by (rule Cons.IH)
    with step show ?case by (simp only: foldl_Cons list.set) (metis insert_iff)
  qed
  assume "candidates \<noteq> []"
  then obtain c0 cs where "candidates = c0 # cs" by (cases candidates) auto
  with inv [of "(c0, 999)" candidates] show ?thesis
    by (simp add: selectSpelling_def)
qed

lemma format_unfold:
  "ABCFormatter_format n sep (Some key) =
     (case selectSpelling (keySignatureDefaults (normalizeKey key)) (preferFlatsInTie (normalizeKey key))
             (candidatesFor (pitchClass n)) of
        None \<Rightarrow> Inl TypeError
      | Some best \<Rightarrow>
          Inr (accidentalPrefix (acc best) (keySignatureDefaults (normalizeKey key) (letter best))
               @ applyAbcOctave (letter best) (octaveOf n)))"
  by (simp add: ABCFormatter_format_def Let_def split: option.splits)

section \<open>Facts about decimal digits\<close>

lemma nat_lt_10: "d < 10 \<Longrightarrow> d = 0 \<or> d = 1 \<or> d = 2 \<or> d = 3 \<or> d = 4 \<or> d = 5 \<or> d = 6 \<or> d = 7 \<or> d = 8 \<or> d = (9::nat)"
  by arith

lemma digit_char_value:
  assumes "d < 10"
  shows "digit_value (digit_char d) = d \<and> is_digit (digit_char d)"
  using nat_lt_10 [OF assms] by (elim disjE) (simp_all add: digit_value_def digit_char_def is_digit_def)

lemma nat_digits_small: "n < 10 \<Longrightarrow> nat_digits n = [digit_char n]"
  by (simp add: nat_digits.simps [of n])

lemma nat_digits_big:
  "\<not> n < 10 \<Longrightarrow> nat_digits n = nat_digits (n div 10) @ [digit_char (n mod 10)]"
  by (simp add: nat_digits.simps [of n])

lemma decimal_value_snoc: "decimal_value (ds @ [c]) = 10 * decimal_value ds + digit_value c"
  by (simp add: decimal_value_def)

lemma nat_digits_value: "decimal_value (nat_digits n) = n \<and> list_all is_digit (nat_digits n)"
proof (induction n rule: nat_digits.induct)
  case (1 n)
  show ?case
  proof (cases "n < 10")
    case True
    then show ?thesis
      using digit_char_value [of n] by (simp add: nat_digits_small nat_digits_big decimal_value_def)
  next
    case False
    have d: "digit_value (digit_char (n mod 10)) = n mod 10 \<and> is_digit (digit_char (n mod 10))"
      by (rule digit_char_value) simp
    have "nat_digits n = nat_digits (n div 10) @ [digit_char (n mod 10)]"
      using False by (simp add: nat_digits_small nat_digits_big)
    with "1.IH" [OF False] d show ?thesis
      by (simp add: decimal_value_snoc)
  qed
qed

lemma octave_string:
  assumes "0 \<le> n" and "n \<le> 127"
  shows "Number_toString (n div 12 - 1) = (if n < 12 then ''-1'' else [''0123456789'' ! nat (n div 12 - 1)])"
proof (cases "n < 12")
  case True
  with assms have "n div 12 = 0" by simp
  then show ?thesis using True by (simp add: Number_toString_def nat_digits_small nat_digits_big digit_char_def)
next
  case False
  with assms have "1 \<le> n div 12 \<and> n div 12 \<le> 10" by arith
  then have "nat (n div 12 - 1) < 10 \<and> \<not> n div 12 - 1 < 0" by arith
  then show ?thesis using False
    by (simp add: Number_toString_def nat_digits_small nat_digits_big digit_char_def)
qed

lemma scientific_nonneg:
  assumes "0 \<le> n" and "n \<le> 127"
  shows "scientificFormatter_format n sep =
           noteNames ! nat (n mod 12) @ Number_toString (n div 12 - 1) @ sep"
proof -
  have r: "js_rem n 12 = n mod 12" using assms(1) by (rule js_rem_nonneg)
  have "\<bar>n\<bar> < 9007199254740992" using assms by linarith
  then have oc: "js_number (Math_floor_div n 12 - 1) = n div 12 - 1"
    using octaveOf_exact [of n] by (simp add: octaveOf_def)
  have "0 \<le> n mod 12 \<and> n mod 12 < 12" by simp
  then have "0 \<le> n mod 12 \<and> nat (n mod 12) < length noteNames"
    by (simp add: noteNames_def)
  then show ?thesis
    by (simp add: scientificFormatter_format_def Let_def r oc)
qed

section \<open>Facts about the formatter\<close>

lemma spellingCost_defaults_init:
  "spellingCost defaults_init c = (if acc c = natural then 0 else 1)"
  by (auto simp add: spellingCost_def defaults_init_apply)

lemma format_single:
  assumes "candidatesFor (pitchClass n) = [c]"
  shows "ABCFormatter_format n sep (Some key) =
           Inr (accidentalPrefix (acc c) (keySignatureDefaults (normalizeKey key) (letter c))
                @ applyAbcOctave (letter c) (octaveOf n))"
  by (simp add: format_unfold assms selectSpelling_single)

lemma format_pair_natural_defaults:
  assumes "candidatesFor (pitchClass n) = [sh, fl]" and "acc sh = sharp" and "acc fl = flat"
    and "keySignatureDefaults (normalizeKey key) = defaults_init"
  shows "ABCFormatter_format n sep (Some key) =
           (if preferFlatsInTie (normalizeKey key)
            then Inr (''_'' @ applyAbcOctave (letter fl) (octaveOf n))
            else Inr (''^'' @ applyAbcOctave (letter sh) (octaveOf n)))"
  using assms
  by (simp add: format_unfold selectSpelling_pair spellingCost_defaults_init
      accidentalPrefix_def defaults_init_apply)

lemma white_candidates:
  assumes "pitchClass n \<in> {0, 2, 4, 5, 7, 9, 11}"
  shows "\<exists>c. candidatesFor (pitchClass n) = [c]"
  using assms by (auto simp add: candidatesFor_values)

lemma black_candidates:
  assumes "pitchClass n \<in> {1, 3, 6, 8, 10}"
  shows "\<exists>sh fl. candidatesFor (pitchClass n) = [sh, fl] \<and> acc sh = sharp \<and> acc fl = flat"
  using assms by (auto simp add: candidatesFor_values)

lemma accidentalPrefix_empty_iff: "(accidentalPrefix a d = []) = (d = Some a)"
  by (auto simp add: accidentalPrefix_def)

lemma accidentalPrefix_glyph:
  "d \<noteq> Some a \<Longrightarrow>
     accidentalPrefix a d = (case a of sharp \<Rightarrow> ''^'' | flat \<Rightarrow> ''_'' | natural \<Rightarrow> ''='')"
  by (cases a) (auto simp add: accidentalPrefix_def)

lemma replicate_subset: "c \<in> S \<Longrightarrow> set (replicate n c) \<subseteq> S"
  by auto

lemma accidentalPrefix_chars:
  "set (accidentalPrefix a d) \<subseteq> set (CHR 0x27 # ''^_=ABCDEFGabcdefg,'')"
  by (simp add: accidentalPrefix_def)

lemma applyAbcOctave_chars:
  "set (applyAbcOctave l oct) \<subseteq> set (CHR 0x27 # ''^_=ABCDEFGabcdefg,'')"
  by (cases l) (simp_all add: applyAbcOctave_def commas_loop_eq apostrophes_loop_eq
      String_toLowerCase_def char_toLowerCase_def replicate_subset)

section \<open>Pitch decomposition: the claims\<close>

text \<open>
  Claim C7, as stated: for every integer pitch number the octave is \<open>floor(n / 12) - 1\<close>.
  It fails at the pitch number 54043195528445960, which is a binary64 value: the quotient
  by 12 is \<open>2^52 + 2/3\<close>, the division rounds it up to \<open>2^52 + 1\<close>, and the octave computed is
  4503599627370496 where \<open>floor(n / 12) - 1\<close> is 4503599627370495.
\<close>

theorem decompose_counterexample:
  "js_number 54043195528445960 = 54043195528445960
   \<and> pitchClass 54043195528445960 = 8
   \<and> Math_floor_div 54043195528445960 12 = 4503599627370497
   \<and> octaveOf 54043195528445960 = 4503599627370496
   \<and> \<lfloor>real_of_int 54043195528445960 / 12\<rfloor> - 1 = 4503599627370495
   \<and> octaveOf 54043195528445960 \<noteq> \<lfloor>real_of_int 54043195528445960 / 12\<rfloor> - 1"
proof -
  have fl: "\<lfloor>real_of_int 54043195528445960 / 12\<rfloor> = 54043195528445960 div 12"
    using floor_divide_of_int_eq [of 54043195528445960 12, where ?'a = real] by simp
  have rep: "js_number 54043195528445960 = 54043195528445960"
    by (simp add: binary64_eval)
  have q: "Math_floor_div 54043195528445960 12 = 4503599627370497"
    by (simp add: binary64_eval)
  have oc: "octaveOf 54043195528445960 = 4503599627370496"
    by (simp add: octaveOf_def q) (simp add: binary64_eval)
  have pc: "pitchClass 54043195528445960 = 8"
    by (simp add: pitchClass_mod)
  show ?thesis
    using rep pc q oc by (simp add: fl)
qed

text \<open>
  Claim C7, amended. For every integer pitch number, negative ones included, the pitch
  class computed as \<open>((n % 12) + 12) % 12\<close> with the sign-following remainder of the
  language is the mathematical residue of \<open>n\<close> modulo 12 and lies in 0..11. For every
  pitch number among the safe integers (magnitude at most \<open>2^53 - 1\<close>) the octave is
  \<open>floor(n / 12) - 1\<close>. When \<open>n\<close> and \<open>n + 12\<close> are both safe integers, adding 12 to the
  pitch number keeps the pitch class and raises the octave by exactly one.
\<close>

theorem decompose_safe_integers:
  "pitchClass n = js_rem (js_rem n 12 + 12) 12
   \<and> pitchClass n = n mod 12
   \<and> 0 \<le> pitchClass n \<and> pitchClass n \<le> 11
   \<and> (\<bar>n\<bar> \<le> 9007199254740991 \<longrightarrow>
         octaveOf n = \<lfloor>real_of_int n / 12\<rfloor> - 1
       \<and> octaveOf n = n div 12 - 1)
   \<and> (- 9007199254740991 \<le> n \<and> n + 12 \<le> 9007199254740991 \<longrightarrow>
         pitchClass (n + 12) = pitchClass n
       \<and> octaveOf (n + 12) = octaveOf n + 1)"
proof -
  have range: "0 \<le> n mod 12 \<and> n mod 12 \<le> 11"
    using pos_mod_bound [of 12 n] pos_mod_sign [of 12 n] by linarith
  have fl: "\<lfloor>real_of_int n / 12\<rfloor> = n div 12"
    using floor_divide_of_int_eq [of n 12, where ?'a = real] by simp
  have pcs: "pitchClass n = js_rem (js_rem n 12 + 12) 12 \<and> pitchClass n = n mod 12
      \<and> 0 \<le> pitchClass n \<and> pitchClass n \<le> 11"
    using range by (simp add: pitchClass_mod pitchClass_def [symmetric])
  have oct: "octaveOf n = \<lfloor>real_of_int n / 12\<rfloor> - 1 \<and> octaveOf n = n div 12 - 1"
    if "\<bar>n\<bar> \<le> 9007199254740991"
  proof -
    from that have "\<bar>n\<bar> < 9007199254740992" by linarith
    then show ?thesis by (simp add: octaveOf_exact fl)
  qed
  have shift: "pitchClass (n + 12) = pitchClass n \<and> octaveOf (n + 12) = octaveOf n + 1"
    if "- 9007199254740991 \<le> n \<and> n + 12 \<le> 9007199254740991"
  proof -
    from that have a: "\<bar>n\<bar> < 9007199254740992" and b: "\<bar>n + 12\<bar> < 9007199254740992"
      by linarith+
    show ?thesis
      by (simp add: pitchClass_mod octaveOf_exact [OF a] octaveOf_exact [OF b])
  qed
  show ?thesis using pcs oct shift by blast
qed

theorem decompose_safe_integers_witness:
  "\<bar>- 13 :: int\<bar> \<le> 9007199254740991
   \<and> - 9007199254740991 \<le> (- 13 :: int) \<and> (- 13 :: int) + 12 \<le> 9007199254740991
   \<and> pitchClass (- 13) = 11 \<and> octaveOf (- 13) = - 3
   \<and> pitchClass (- 1) = 11 \<and> octaveOf (- 1) = - 2
   \<and> \<bar>9007199254740991 :: int\<bar> \<le> 9007199254740991
   \<and> octaveOf 9007199254740991 = 750599937895081"
  using decompose_safe_integers [of "- 13"] decompose_safe_integers [of "- 1"]
    decompose_safe_integers [of 9007199254740991]
  by simp

section \<open>The key model: the claims\<close>

text \<open>
  Claim C4. The tie-break preference is for flats exactly at the key names C, F, Bb, Eb,
  Ab, Db, Gb and Cb: as the helper stands, on any string, and so as the formatter calls
  it, on the trimmed key. It is false at every sharp-family key name and at every other
  string.
\<close>

theorem preferFlatsInTie_exact:
  "preferFlatsInTie x = (x \<in> {''C'', ''F'', ''Bb'', ''Eb'', ''Ab'', ''Db'', ''Gb'', ''Cb''})
   \<and> preferFlatsInTie (normalizeKey s) =
     (normalizeKey s \<in> {''C'', ''F'', ''Bb'', ''Eb'', ''Ab'', ''Db'', ''Gb'', ''Cb''})
   \<and> \<not> preferFlatsInTie ''G'' \<and> \<not> preferFlatsInTie ''D'' \<and> \<not> preferFlatsInTie ''A''
   \<and> \<not> preferFlatsInTie ''E'' \<and> \<not> preferFlatsInTie ''B'' \<and> \<not> preferFlatsInTie ''F#''
   \<and> \<not> preferFlatsInTie ''C#''
   \<and> preferFlatsInTie (normalizeKey '' Bb '') \<and> \<not> preferFlatsInTie '' Bb ''
   \<and> \<not> preferFlatsInTie ''H'' \<and> \<not> preferFlatsInTie []"
  by (simp add: preferFlatsInTie_def normalizeKey_def String_trim_def isWhiteSpace_def)

text \<open>
  Claim C5. The key signature defaults give every one of the seven letters an accidental,
  whatever the input string. For the sharp key of order N (G is 1, D is 2, up to C# at 7)
  the first N letters of F, C, G, D, A, E, B are sharp and every other letter is natural;
  for the flat key of order N (F is 1, Bb is 2, up to Cb at 7) the first N letters of
  B, E, A, D, G, C, F are flat and every other letter is natural.
\<close>

theorem keySignatureDefaults_correct:
  "dom (keySignatureDefaults x) = UNIV
   \<and> (1 \<le> N \<and> N \<le> 7 \<longrightarrow>
        keySignatureDefaults ([''G'', ''D'', ''A'', ''E'', ''B'', ''F#'', ''C#''] ! (N - 1)) l
          = Some (if l \<in> set (take N [F, C, G, D, A, E, B]) then sharp else natural))
   \<and> (1 \<le> N \<and> N \<le> 7 \<longrightarrow>
        keySignatureDefaults ([''F'', ''Bb'', ''Eb'', ''Ab'', ''Db'', ''Gb'', ''Cb''] ! (N - 1)) l
          = Some (if l \<in> set (take N [B, E, A, D, G, C, F]) then flat else natural))"
proof (intro conjI impI)
  show "dom (keySignatureDefaults x) = UNIV"
    using keySignatureDefaults_total [of x] by auto
next
  assume "1 \<le> N \<and> N \<le> 7"
  then have "map_of keyToSharpsCount ([''G'', ''D'', ''A'', ''E'', ''B'', ''F#'', ''C#''] ! (N - 1)) = Some N"
    using sharp_key_count by simp
  from keySignatureDefaults_sharp [OF this, of l]
  show "keySignatureDefaults ([''G'', ''D'', ''A'', ''E'', ''B'', ''F#'', ''C#''] ! (N - 1)) l
          = Some (if l \<in> set (take N [F, C, G, D, A, E, B]) then sharp else natural)"
    by (simp only: sharpsOrder_def)
next
  assume "1 \<le> N \<and> N \<le> 7"
  then have "map_of keyToFlatsCount ([''F'', ''Bb'', ''Eb'', ''Ab'', ''Db'', ''Gb'', ''Cb''] ! (N - 1)) = Some N
       \<and> \<not> js_in ([''F'', ''Bb'', ''Eb'', ''Ab'', ''Db'', ''Gb'', ''Cb''] ! (N - 1)) keyToSharpsCount"
    using flat_key_count by simp
  then have "keySignatureDefaults ([''F'', ''Bb'', ''Eb'', ''Ab'', ''Db'', ''Gb'', ''Cb''] ! (N - 1)) l
          = Some (if l \<in> set (take N flatsOrder) then flat else natural)"
    by (intro keySignatureDefaults_flat) simp_all
  then show "keySignatureDefaults ([''F'', ''Bb'', ''Eb'', ''Ab'', ''Db'', ''Gb'', ''Cb''] ! (N - 1)) l
          = Some (if l \<in> set (take N [B, E, A, D, G, C, F]) then flat else natural)"
    by (simp only: flatsOrder_def)
qed

theorem keySignatureDefaults_correct_witness:
  "(1::nat) \<le> 2 \<and> (2::nat) \<le> 7
   \<and> dom (keySignatureDefaults ''H'') = UNIV
   \<and> keySignatureDefaults ''D'' F = Some sharp
   \<and> keySignatureDefaults ''D'' C = Some sharp
   \<and> keySignatureDefaults ''D'' G = Some natural
   \<and> keySignatureDefaults ''Bb'' B = Some flat
   \<and> keySignatureDefaults ''Bb'' E = Some flat
   \<and> keySignatureDefaults ''Bb'' A = Some natural"
  using keySignatureDefaults_correct [of "''H''" 2 F]
    keySignatureDefaults_correct [of "''H''" 2 C]
    keySignatureDefaults_correct [of "''H''" 2 G]
    keySignatureDefaults_correct [of "''H''" 2 B]
    keySignatureDefaults_correct [of "''H''" 2 E]
    keySignatureDefaults_correct [of "''H''" 2 A]
  by simp

section \<open>The octave marks: the claims\<close>


section \<open>The key-aware formatter: the claims\<close>

text \<open>
  Claim C2. With pitch number 61 and key C the formatter returns "_D": pitch class 1 at
  octave 4 has the candidates C sharp and D flat, both at cost 1 under the all-natural
  defaults of key C; key C prefers flats, so the tie goes to D flat; the flat differs
  from the natural default of D, so the glyph "_" is written; octave 4 adds no marks.
\<close>

theorem format_61_C:
  "ABCFormatter_format 61 sep (Some ''C'') = Inr ''_D''
   \<and> pitchClass 61 = 1 \<and> octaveOf 61 = 4
   \<and> candidatesFor 1 = [\<lparr>letter = C, acc = sharp\<rparr>, \<lparr>letter = D, acc = flat\<rparr>]
   \<and> spellingCost (keySignatureDefaults ''C'') \<lparr>letter = C, acc = sharp\<rparr> = 1
   \<and> spellingCost (keySignatureDefaults ''C'') \<lparr>letter = D, acc = flat\<rparr> = 1
   \<and> preferFlatsInTie ''C''
   \<and> selectSpelling (keySignatureDefaults ''C'') (preferFlatsInTie ''C'') (candidatesFor 1)
        = Some \<lparr>letter = D, acc = flat\<rparr>
   \<and> keySignatureDefaults ''C'' D = Some natural
   \<and> accidentalPrefix flat (keySignatureDefaults ''C'' D) = ''_''
   \<and> applyAbcOctave D 4 = ''D''"
proof -
  have pc: "pitchClass 61 = 1" by (simp add: pitchClass_mod)
  have oc: "octaveOf 61 = 4" by (simp add: octaveOf_exact)
  have nk: "normalizeKey ''C'' = ''C''" by (simp add: normalizeKey_supported supportedKeys_def)
  have kd: "keySignatureDefaults ''C'' l = Some natural" for l
    by (simp add: keySignatureDefaults_C defaults_init_apply)
  have pf: "preferFlatsInTie ''C''" by (simp add: preferFlatsInTie_def)
  have c1: "spellingCost (keySignatureDefaults ''C'') \<lparr>letter = C, acc = sharp\<rparr> = 1"
    and c2: "spellingCost (keySignatureDefaults ''C'') \<lparr>letter = D, acc = flat\<rparr> = 1"
    by (simp_all add: spellingCost_def kd)
  have sel: "selectSpelling (keySignatureDefaults ''C'') (preferFlatsInTie ''C'') (candidatesFor 1)
        = Some \<lparr>letter = D, acc = flat\<rparr>"
    by (simp add: candidatesFor_values selectSpelling_pair c1 c2 pf)
  have ap: "accidentalPrefix flat (keySignatureDefaults ''C'' D) = ''_''"
    by (simp add: accidentalPrefix_def kd)
  have body: "applyAbcOctave D 4 = ''D''"
    by (simp add: applyAbcOctave_def commas_loop_eq)
  have out: "ABCFormatter_format 61 sep (Some ''C'') = Inr ''_D''"
    by (simp add: format_unfold nk pc oc sel ap body)
  show ?thesis
    using out pc oc candidatesFor_values(2) c1 c2 pf sel kd [of D] ap body by (intro conjI)
qed

text \<open>
  Claim C3. With pitch number 61 and key D the formatter returns "C": key D has sharps on
  F and C, so C sharp costs 0 and D flat costs 1; C sharp wins outright, and as the
  accidental is the key's default for C no glyph is written.
\<close>

theorem format_61_D:
  "ABCFormatter_format 61 sep (Some ''D'') = Inr ''C''
   \<and> keySignatureDefaults ''D'' F = Some sharp
   \<and> keySignatureDefaults ''D'' C = Some sharp
   \<and> keySignatureDefaults ''D'' D = Some natural
   \<and> spellingCost (keySignatureDefaults ''D'') \<lparr>letter = C, acc = sharp\<rparr> = 0
   \<and> spellingCost (keySignatureDefaults ''D'') \<lparr>letter = D, acc = flat\<rparr> = 1
   \<and> selectSpelling (keySignatureDefaults ''D'') (preferFlatsInTie ''D'') (candidatesFor 1)
        = Some \<lparr>letter = C, acc = sharp\<rparr>
   \<and> accidentalPrefix sharp (keySignatureDefaults ''D'' C) = []
   \<and> applyAbcOctave C 4 = ''C''"
proof -
  have pc: "pitchClass 61 = 1" by (simp add: pitchClass_mod)
  have oc: "octaveOf 61 = 4" by (simp add: octaveOf_exact)
  have nk: "normalizeKey ''D'' = ''D''" by (simp add: normalizeKey_supported supportedKeys_def)
  have cnt: "map_of keyToSharpsCount ''D'' = Some 2" by (simp add: keyToSharpsCount_def)
  have kd: "keySignatureDefaults ''D'' l = Some (if l \<in> {F, C} then sharp else natural)" for l
    using keySignatureDefaults_sharp [OF cnt, of l] by (simp add: sharpsOrder_def numeral_2_eq_2)
  have c1: "spellingCost (keySignatureDefaults ''D'') \<lparr>letter = C, acc = sharp\<rparr> = 0"
    and c2: "spellingCost (keySignatureDefaults ''D'') \<lparr>letter = D, acc = flat\<rparr> = 1"
    by (simp_all add: spellingCost_def kd)
  have sel: "selectSpelling (keySignatureDefaults ''D'') (preferFlatsInTie ''D'') (candidatesFor 1)
        = Some \<lparr>letter = C, acc = sharp\<rparr>"
    by (simp add: candidatesFor_values selectSpelling_pair c1 c2)
  have ap: "accidentalPrefix sharp (keySignatureDefaults ''D'' C) = []"
    by (simp add: accidentalPrefix_def kd)
  have body: "applyAbcOctave C 4 = ''C''"
    by (simp add: applyAbcOctave_def commas_loop_eq)
  have out: "ABCFormatter_format 61 sep (Some ''D'') = Inr ''C''"
    by (simp add: format_unfold nk pc oc sel ap body)
  have kF: "keySignatureDefaults ''D'' F = Some sharp" and kC: "keySignatureDefaults ''D'' C = Some sharp"
    and kD: "keySignatureDefaults ''D'' D = Some natural"
    by (simp_all add: kd)
  show ?thesis
    using out kF kC kD c1 c2 sel ap body by (intro conjI)
qed

text \<open>
  Claim C1, as stated: a key string that trims to the empty string, or to a name outside
  the 15 supported ones, gives the output of key C at every pitch number. It fails at
  pitch number 61: the empty key and the key H give "^C", key C gives "_D".
\<close>

theorem unrecognized_key_counterexample:
  "normalizeKey [] = [] \<and> [] \<notin> set supportedKeys
   \<and> ABCFormatter_format 61 '','' (Some []) = Inr ''^C''
   \<and> ABCFormatter_format 61 '','' (Some ''C'') = Inr ''_D''
   \<and> ABCFormatter_format 61 '','' (Some []) \<noteq> ABCFormatter_format 61 '','' (Some ''C'')
   \<and> normalizeKey ''H'' = ''H'' \<and> ''H'' \<notin> set supportedKeys
   \<and> ABCFormatter_format 61 '','' (Some ''H'') \<noteq> ABCFormatter_format 61 '','' (Some ''C'')"
  by code_simp

text \<open>
  Claim C1, amended. For a key string whose trimmed form is none of the 15 supported
  names, the key signature defaults are those of key C (all natural) but the tie-break
  preference is for sharps, not for flats as with key C. So the output equals the output
  for key C at every pitch number whose pitch class has one candidate (0, 2, 4, 5, 7, 9,
  11); at a pitch class with two candidates (1, 3, 6, 8, 10) it is the sharp spelling,
  "^" before the lower letter, where key C gives the flat spelling, "_" before the upper
  letter.
\<close>

theorem unrecognized_key_format:
  assumes "normalizeKey s \<notin> set supportedKeys"
  shows "keySignatureDefaults (normalizeKey s) = keySignatureDefaults ''C''
     \<and> \<not> preferFlatsInTie (normalizeKey s)
     \<and> (pitchClass n \<in> {0, 2, 4, 5, 7, 9, 11} \<longrightarrow>
          ABCFormatter_format n sep (Some s) = ABCFormatter_format n sep (Some ''C''))
     \<and> (pitchClass n \<in> {1, 3, 6, 8, 10} \<longrightarrow>
          (\<exists>sh fl. candidatesFor (pitchClass n) = [sh, fl] \<and> acc sh = sharp \<and> acc fl = flat
             \<and> ABCFormatter_format n sep (Some s)
                 = Inr (''^'' @ applyAbcOctave (letter sh) (octaveOf n))
             \<and> ABCFormatter_format n sep (Some ''C'')
                 = Inr (''_'' @ applyAbcOctave (letter fl) (octaveOf n))))"
proof (intro conjI impI)
  have kd: "keySignatureDefaults (normalizeKey s) = defaults_init"
    using assms by (rule keySignatureDefaults_unrecognized)
  have nC: "normalizeKey ''C'' = ''C''"
    by (simp add: normalizeKey_supported supportedKeys_def)
  have pfC: "preferFlatsInTie (normalizeKey ''C'')"
    by (simp add: nC preferFlatsInTie_def)
  have kdC: "keySignatureDefaults (normalizeKey ''C'') = defaults_init"
    by (simp add: nC keySignatureDefaults_C)
  show "keySignatureDefaults (normalizeKey s) = keySignatureDefaults ''C''"
    by (simp add: kd keySignatureDefaults_C)
  show npf: "\<not> preferFlatsInTie (normalizeKey s)"
    using assms by (auto simp add: preferFlatsInTie_def supportedKeys_def)
  {
    assume "pitchClass n \<in> {0, 2, 4, 5, 7, 9, 11}"
    then obtain c where c: "candidatesFor (pitchClass n) = [c]"
      using white_candidates by blast
    show "ABCFormatter_format n sep (Some s) = ABCFormatter_format n sep (Some ''C'')"
      by (simp add: format_single [OF c] kd kdC)
  }
  {
    assume "pitchClass n \<in> {1, 3, 6, 8, 10}"
    then obtain sh fl where c: "candidatesFor (pitchClass n) = [sh, fl]"
      and sh: "acc sh = sharp" and fl: "acc fl = flat"
      using black_candidates by blast
    have "ABCFormatter_format n sep (Some s) = Inr (''^'' @ applyAbcOctave (letter sh) (octaveOf n))"
      using format_pair_natural_defaults [OF c sh fl kd, of sep] npf by simp
    moreover
    have "ABCFormatter_format n sep (Some ''C'') = Inr (''_'' @ applyAbcOctave (letter fl) (octaveOf n))"
      using format_pair_natural_defaults [OF c sh fl kdC, of sep] pfC by simp
    ultimately
    show "\<exists>sh fl. candidatesFor (pitchClass n) = [sh, fl] \<and> acc sh = sharp \<and> acc fl = flat
             \<and> ABCFormatter_format n sep (Some s)
                 = Inr (''^'' @ applyAbcOctave (letter sh) (octaveOf n))
             \<and> ABCFormatter_format n sep (Some ''C'')
                 = Inr (''_'' @ applyAbcOctave (letter fl) (octaveOf n))"
      using c sh fl by blast
  }
qed

theorem unrecognized_key_format_witness:
  "normalizeKey '' H '' \<notin> set supportedKeys
   \<and> keySignatureDefaults (normalizeKey '' H '') = keySignatureDefaults ''C''
   \<and> \<not> preferFlatsInTie (normalizeKey '' H '')
   \<and> ABCFormatter_format 60 '','' (Some '' H '') = ABCFormatter_format 60 '','' (Some ''C'')
   \<and> ABCFormatter_format 61 '','' (Some '' H '') = Inr ''^C''
   \<and> ABCFormatter_format 61 '','' (Some ''C'') = Inr ''_D''"
proof -
  have h: "normalizeKey '' H '' \<notin> set supportedKeys"
    by (simp add: normalizeKey_def String_trim_def isWhiteSpace_def supportedKeys_def)
  have p60: "pitchClass 60 = 0" and p61: "pitchClass 61 = 1" and o61: "octaveOf 61 = 4"
    by (simp_all add: pitchClass_mod octaveOf_exact)
  have b: "applyAbcOctave C 4 = ''C''" "applyAbcOctave D 4 = ''D''"
    by (simp_all add: applyAbcOctave_def commas_loop_eq)
  from unrecognized_key_format [OF h, of 60 "'',''"] unrecognized_key_format [OF h, of 61 "'',''"]
  show ?thesis
    using h by (simp add: p60 p61 o61 candidatesFor_values b)
qed

text \<open>
  Claim C8. For every one of the 15 supported key names and every pitch class from 0 to
  11, the selection yields one of the candidates of the pitch class, and the accidental
  glyph is the empty string exactly when the accidental of the chosen spelling is the
  key's default for the chosen letter; otherwise the glyph is "^" for a sharp, "_" for a
  flat and "=" for a natural. The formatter writes this glyph in front of the letter, at
  every pitch number of that pitch class.
\<close>

theorem accidental_glyph_roundtrip:
  assumes "k \<in> set supportedKeys" and "0 \<le> pc" and "pc \<le> 11"
  shows "\<exists>best. selectSpelling (keySignatureDefaults k) (preferFlatsInTie k) (candidatesFor pc) = Some best
     \<and> best \<in> set (candidatesFor pc)
     \<and> (accidentalPrefix (acc best) (keySignatureDefaults k (letter best)) = []
          \<longleftrightarrow> keySignatureDefaults k (letter best) = Some (acc best))
     \<and> (keySignatureDefaults k (letter best) \<noteq> Some (acc best) \<longrightarrow>
          accidentalPrefix (acc best) (keySignatureDefaults k (letter best))
            = (case acc best of sharp \<Rightarrow> ''^'' | flat \<Rightarrow> ''_'' | natural \<Rightarrow> ''=''))
     \<and> (\<forall>n sep. pitchClass n = pc \<longrightarrow>
          ABCFormatter_format n sep (Some k)
            = Inr (accidentalPrefix (acc best) (keySignatureDefaults k (letter best))
                   @ applyAbcOctave (letter best) (octaveOf n)))"
proof -
  obtain best where sel: "selectSpelling (keySignatureDefaults k) (preferFlatsInTie k) (candidatesFor pc) = Some best"
    and mem: "best \<in> set (candidatesFor pc)"
    using selectSpelling_mem [OF candidatesFor_nonempty] by blast
  have nk: "normalizeKey k = k" using assms(1) by (rule normalizeKey_supported)
  have fmt: "ABCFormatter_format n sep (Some k)
            = Inr (accidentalPrefix (acc best) (keySignatureDefaults k (letter best))
                   @ applyAbcOctave (letter best) (octaveOf n))" if "pitchClass n = pc" for n sep
    using that sel by (simp add: format_unfold nk)
  show ?thesis
    using sel mem fmt accidentalPrefix_empty_iff accidentalPrefix_glyph by blast
qed

theorem accidental_glyph_roundtrip_witness:
  "''D'' \<in> set supportedKeys \<and> (0::int) \<le> 1 \<and> (1::int) \<le> 11
   \<and> selectSpelling (keySignatureDefaults ''D'') (preferFlatsInTie ''D'') (candidatesFor 1)
        = Some \<lparr>letter = C, acc = sharp\<rparr>
   \<and> keySignatureDefaults ''D'' C = Some sharp
   \<and> accidentalPrefix sharp (keySignatureDefaults ''D'' C) = []
   \<and> selectSpelling (keySignatureDefaults ''D'') (preferFlatsInTie ''D'') (candidatesFor 0)
        = Some \<lparr>letter = C, acc = natural\<rparr>
   \<and> accidentalPrefix natural (keySignatureDefaults ''D'' C) = ''=''
   \<and> ABCFormatter_format 61 '','' (Some ''D'') = Inr ''C''
   \<and> ABCFormatter_format 60 '','' (Some ''D'') = Inr ''=C''"
proof -
  have h: "''D'' \<in> set supportedKeys" by (simp add: supportedKeys_def)
  have r: "selectSpelling (keySignatureDefaults ''D'') (preferFlatsInTie ''D'') (candidatesFor 1)
        = Some \<lparr>letter = C, acc = sharp\<rparr>
   \<and> keySignatureDefaults ''D'' C = Some sharp
   \<and> accidentalPrefix sharp (keySignatureDefaults ''D'' C) = []
   \<and> selectSpelling (keySignatureDefaults ''D'') (preferFlatsInTie ''D'') (candidatesFor 0)
        = Some \<lparr>letter = C, acc = natural\<rparr>
   \<and> accidentalPrefix natural (keySignatureDefaults ''D'' C) = ''=''
   \<and> ABCFormatter_format 61 '','' (Some ''D'') = Inr ''C''
   \<and> ABCFormatter_format 60 '','' (Some ''D'') = Inr ''=C''"
    by code_simp
  from accidental_glyph_roundtrip [OF h, of 1] accidental_glyph_roundtrip [OF h, of 0]
  show ?thesis using h r by simp
qed

text \<open>
  Claim C10. The output of the key-aware formatter does not depend on the separator it
  is called with: two calls that differ in the separator only return the same string.
  The string is made of the note text alone (an accidental glyph, a letter and octave
  marks), and the plugin's dispatch passes the separator of the settings to no effect.
\<close>

theorem ABC_separator_independent:
  "ABCFormatter_format n s1 k = ABCFormatter_format n s2 k
   \<and> (\<exists>out. (\<forall>sep. ABCFormatter_format n sep k = Inr out)
         \<and> set out \<subseteq> set (CHR 0x27 # ''^_=ABCDEFGabcdefg,''))
   \<and> writeNoteToEditor_noteString \<lparr>exportType = ExportType_ABC, separator = s1\<rparr> currentKey n
       = writeNoteToEditor_noteString \<lparr>exportType = ExportType_ABC, separator = s2\<rparr> currentKey n"
proof (intro conjI)
  show "ABCFormatter_format n s1 k = ABCFormatter_format n s2 k"
    by (simp add: ABCFormatter_format_def)
  show "writeNoteToEditor_noteString \<lparr>exportType = ExportType_ABC, separator = s1\<rparr> currentKey n
       = writeNoteToEditor_noteString \<lparr>exportType = ExportType_ABC, separator = s2\<rparr> currentKey n"
    by (simp add: writeNoteToEditor_noteString_def ABCFormatter_format_def
        ExportType_ABC_def ExportType_RawMessage_def ExportType_Scientific_def)
  define key where "key = (case k of None \<Rightarrow> ''C'' | Some s \<Rightarrow> s)"
  obtain best where sel: "selectSpelling (keySignatureDefaults (normalizeKey key))
      (preferFlatsInTie (normalizeKey key)) (candidatesFor (pitchClass n)) = Some best"
    using selectSpelling_mem [OF candidatesFor_nonempty] by blast
  define out where "out = accidentalPrefix (acc best) (keySignatureDefaults (normalizeKey key) (letter best))
      @ applyAbcOctave (letter best) (octaveOf n)"
  have "ABCFormatter_format n sep k = Inr out" for sep
    using sel by (simp add: ABCFormatter_format_def Let_def key_def out_def)
  moreover have "set out \<subseteq> set (CHR 0x27 # ''^_=ABCDEFGabcdefg,'')"
    unfolding out_def set_append
    by (rule Un_least) (rule accidentalPrefix_chars, rule applyAbcOctave_chars)
  ultimately show "\<exists>out. (\<forall>sep. ABCFormatter_format n sep k = Inr out)
         \<and> set out \<subseteq> set (CHR 0x27 # ''^_=ABCDEFGabcdefg,'')"
    by blast
qed

section \<open>The sibling formatters: the claims\<close>

text \<open>
  Claim C9. For every pitch number from 0 to 127 and every separator, the raw formatter
  returns the decimal digits of the pitch number followed by the separator, and the
  scientific formatter returns the name of pitch class n mod 12 from the sharp-biased
  table of 12 names, then the octave floor(n / 12) - 1 in decimal, then the separator.
  In particular the raw formatter gives "64-" at 64 with "-", and the scientific one
  gives "E4," at 64 with ",".
\<close>

theorem sibling_formatters:
  assumes "0 \<le> n" and "n \<le> 127"
  shows "rawFormatter_format n sep = nat_digits (nat n) @ sep
    \<and> decimal_value (nat_digits (nat n)) = nat n
    \<and> list_all is_digit (nat_digits (nat n))
    \<and> scientificFormatter_format n sep =
        [''C'', ''C#'', ''D'', ''D#'', ''E'', ''F'', ''F#'', ''G'', ''G#'', ''A'', ''A#'', ''B'']
          ! nat (n mod 12)
        @ Number_toString (n div 12 - 1) @ sep
    \<and> Number_toString (n div 12 - 1) =
        (if n < 12 then ''-1'' else [''0123456789'' ! nat (n div 12 - 1)])
    \<and> rawFormatter_format 64 ''-'' = ''64-''
    \<and> scientificFormatter_format 64 '','' = ''E4,''"
proof -
  have raw: "rawFormatter_format n sep = nat_digits (nat n) @ sep"
    using assms(1) by (simp add: rawFormatter_format_def Number_toString_def)
  have sci: "scientificFormatter_format n sep =
        [''C'', ''C#'', ''D'', ''D#'', ''E'', ''F'', ''F#'', ''G'', ''G#'', ''A'', ''A#'', ''B'']
          ! nat (n mod 12)
        @ Number_toString (n div 12 - 1) @ sep"
    using scientific_nonneg [OF assms, of sep] by (simp only: noteNames_def)
  have r64: "rawFormatter_format 64 ''-'' = ''64-''"
    by (simp add: rawFormatter_format_def Number_toString_def nat_digits_small nat_digits_big
        digit_char_def)
  have "scientificFormatter_format 64 '','' = noteNames ! nat (64 mod 12) @ Number_toString (64 div 12 - 1) @ '',''"
    by (rule scientific_nonneg) simp_all
  then have s64: "scientificFormatter_format 64 '','' = ''E4,''"
    by (simp add: noteNames_def Number_toString_def nat_digits_small nat_digits_big digit_char_def)
  show ?thesis
    using raw nat_digits_value [of "nat n"] sci octave_string [OF assms] r64 s64
    by (intro conjI) simp_all
qed

theorem sibling_formatters_witness:
  "(0::int) \<le> 127 \<and> (127::int) \<le> 127
   \<and> rawFormatter_format 127 ''; '' = ''127; ''
   \<and> scientificFormatter_format 127 ''; '' = ''G9; ''
   \<and> rawFormatter_format 64 ''-'' = ''64-''
   \<and> scientificFormatter_format 64 '','' = ''E4,''"
proof -
  have h1: "(0::int) \<le> 127" and h2: "(127::int) \<le> 127" by simp_all
  have d: "nat_digits 127 = ''127''"
    by (simp add: nat_digits_small nat_digits_big digit_char_def)
  from sibling_formatters [OF h1 h2, of "''; ''"] show ?thesis
    by (simp add: d)
qed

end
